theory Spec2Isabelle
  imports Main "HOL-Library.Sublist"
begin

section \<open>Data model of \<open>mpyl.stages.discovery\<close>\<close>

text \<open>
  The module \<open>src/mpyl/stages/discovery.py\<close> decides, per pipeline stage, which projects
  have to be executed. It reads five value types that other modules declare
  (\<open>Revision\<close>, \<open>Output\<close> with its artifact, \<open>Stage\<close>, \<open>Project\<close>, \<open>ProjectExecution\<close>);
  each record below carries exactly the attributes that \<open>discovery.py\<close> reads or writes.
  The \<open>logger\<close> argument of the source only receives debug messages and is left out.
\<close>

text \<open>Modelled from the spec: \<open>utilities.repo.Revision\<close>, of which \<open>discovery.py\<close> reads
  \<open>ord\<close>, \<open>hash\<close> and \<open>files_touched\<close>.\<close>

record Revision =
  ord :: int
  hash :: string
  files_touched :: "string set"

text \<open>Modelled from the spec: the artifact of \<open>steps.models.Output\<close>, of which
  \<open>discovery.py\<close> reads \<open>revision\<close>.\<close>

record Artifact =
  revision :: string

text \<open>Modelled from the spec: \<open>steps.models.Output\<close>, of which \<open>discovery.py\<close> reads
  \<open>success\<close> and \<open>produced_artifact\<close>.\<close>

record Output =
  success :: bool
  produced_artifact :: "Artifact option"

text \<open>Modelled from the spec: \<open>project.Stage\<close>, of which \<open>discovery.py\<close> reads \<open>name\<close>.\<close>

record Stage =
  name :: string

text \<open>Modelled from the spec: \<open>project.Stages\<close>, used only through
  \<open>stages.for_stage(stage)\<close>, which yields the step configured for the stage or \<open>None\<close>.\<close>

type_synonym Stages = "string \<Rightarrow> string option"

text \<open>Modelled from the spec: \<open>project.Dependencies\<close>, used only through
  \<open>deps.set_for_stage(stage)\<close>. The list is the order in which Python iterates the set.\<close>

type_synonym Dependencies = "string \<Rightarrow> string list"

text \<open>Modelled from the spec: \<open>project.Project\<close>, of which \<open>discovery.py\<close> reads \<open>name\<close>,
  \<open>root_path\<close>, \<open>target_path\<close>, \<open>stages\<close> and \<open>dependencies\<close>.\<close>

record Project =
  name :: string
  root_path :: string
  target_path :: string
  stages :: Stages
  dependencies :: "Dependencies option"

text \<open>Modelled from the spec: \<open>project_execution.ProjectExecution\<close>, built by
  \<open>discovery.py\<close> from a project and the frozen set of changed files.\<close>

record ProjectExecution =
  project :: Project
  changed_files :: "string set"

text \<open>Modelled from the spec: the constant \<open>steps.deploy.STAGE_NAME\<close>, the name of the
  deploy stage.\<close>

definition STAGE_NAME :: string where
  "STAGE_NAME = ''deploy''"

text \<open>The artifact store behind \<open>Output.try_read(target_path, stage)\<close>: the recorded
  Output of a target path and stage name, if there is one.\<close>

type_synonym ArtifactLookup = "string \<Rightarrow> string \<Rightarrow> Output option"

type_synonym BuildSet = "Stage \<rightharpoonup> ProjectExecution set"

text \<open>The engine raises nowhere; the type of its failures is kept for the entry point.\<close>

datatype error = ConfigurationInvalid

section \<open>The functions of \<open>discovery.py\<close>\<close>

text \<open>Python's truth value of an \<open>Optional[str]\<close>: neither \<open>None\<close> nor the empty string.\<close>

definition truthy :: "string option \<Rightarrow> bool" where
  "truthy v = (case v of None \<Rightarrow> False | Some s \<Rightarrow> s \<noteq> [])"

text \<open>\<open>str.startswith\<close>.\<close>

definition startswith :: "string \<Rightarrow> string \<Rightarrow> bool" where
  "startswith path p = prefix p path"

text \<open>\<open>is_invalidated\<close> (lines 22-40). \<open>next(filter(path.startswith, deps_for_stage), None)\<close>
  is the first dependency, in iteration order, that the path starts with.\<close>

definition is_invalidated :: "Project \<Rightarrow> string \<Rightarrow> string \<Rightarrow> bool" where
  "is_invalidated proj stage path =
     (let deps = dependencies proj;
          deps_for_stage = (case deps of Some d \<Rightarrow> d stage | None \<Rightarrow> []);
          touched_dependency =
            (case deps of Some d \<Rightarrow> find (startswith path) deps_for_stage | None \<Rightarrow> None);
          startswith_root = startswith path (root_path proj)
      in startswith_root \<or> touched_dependency \<noteq> None)"

text \<open>\<open>output_invalidated\<close> (lines 43-54).\<close>

definition output_invalidated :: "Output option \<Rightarrow> string \<Rightarrow> bool" where
  "output_invalidated output revision_hash =
     (case output of
        None \<Rightarrow> True
      | Some out \<Rightarrow>
          if \<not> success out then True
          else (case produced_artifact out of
                  None \<Rightarrow> True
                | Some artifact \<Rightarrow> if revision artifact \<noteq> revision_hash then True else False))"

text \<open>The loop of \<open>_to_relevant_changes\<close> (lines 62-68) over the sorted history, with the
  set \<open>relevant\<close> as accumulator; the \<open>else\<close> branch is the early \<open>return relevant\<close>.\<close>

fun relevant_loop :: "string \<Rightarrow> Output option \<Rightarrow> Revision list \<Rightarrow> string set \<Rightarrow> string set" where
  "relevant_loop stage output [] relevant = relevant"
| "relevant_loop stage output (history # rest) relevant =
     (if stage = STAGE_NAME \<or> output_invalidated output (hash history)
      then relevant_loop stage output rest (relevant \<union> files_touched history)
      else relevant)"

text \<open>\<open>_to_relevant_changes\<close> (lines 57-68). Python's \<open>sorted\<close> is stable, as \<open>sort_key\<close> is.\<close>

definition to_relevant_changes ::
  "ArtifactLookup \<Rightarrow> Project \<Rightarrow> string \<Rightarrow> Revision list \<Rightarrow> string set" where
  "to_relevant_changes try_read proj stage change_history =
     (let output = try_read (target_path proj) stage
      in relevant_loop stage output (rev (sort_key ord change_history)) {})"

text \<open>\<open>_to_project_execution\<close> (lines 71-89).\<close>

definition to_project_execution ::
  "ArtifactLookup \<Rightarrow> Project \<Rightarrow> string \<Rightarrow> Revision list \<Rightarrow> ProjectExecution option" where
  "to_project_execution try_read proj stage change_history =
     (if stages proj stage = None then None
      else
        let relevant_changes = to_relevant_changes try_read proj stage change_history;
            files_changed_for_this_project =
              Set.filter (\<lambda>c. is_invalidated proj stage c) relevant_changes
        in if files_changed_for_this_project \<noteq> {}
           then Some \<lparr>project = proj, changed_files = files_changed_for_this_project\<rparr>
           else None)"

text \<open>\<open>build_project_executions\<close> (lines 92-110): the executions that are not \<open>None\<close>.\<close>

definition build_project_executions ::
  "ArtifactLookup \<Rightarrow> Project set \<Rightarrow> string \<Rightarrow> Revision list \<Rightarrow> ProjectExecution set" where
  "build_project_executions try_read all_projects stage change_history =
     (let maybe_execution_projects =
            (\<lambda>proj. to_project_execution try_read proj stage change_history) ` all_projects
      in Option.these maybe_execution_projects)"

text \<open>\<open>for_stage\<close> (lines 151-152): the filter keeps a project when the configured step
  is truthy.\<close>

definition for_stage :: "Project set \<Rightarrow> Stage \<Rightarrow> Project set" where
  "for_stage projects stage = Set.filter (\<lambda>p. truthy (stages p (Stage.name stage))) projects"

text \<open>\<open>str.split(",")\<close>.\<close>

fun split_comma :: "string \<Rightarrow> string list" where
  "split_comma [] = [[]]"
| "split_comma (c # cs) =
     (if c = CHR '','' then [] # split_comma cs
      else (case split_comma cs of
              [] \<Rightarrow> [[c]]
            | w # ws \<Rightarrow> (c # w) # ws))"

text \<open>The loop of \<open>find_build_set\<close> (lines 127-146). Its state is the pair of the variable
  \<open>all_projects\<close>, which the loop body reassigns, and the dictionary \<open>build_set\<close>.\<close>

fun find_build_set_loop ::
  "ArtifactLookup \<Rightarrow> Revision list \<Rightarrow> bool \<Rightarrow> string option \<Rightarrow> string option \<Rightarrow> string list \<Rightarrow>
   Stage list \<Rightarrow> Project set \<times> BuildSet \<Rightarrow> Project set \<times> BuildSet" where
  "find_build_set_loop try_read changes_in_branch build_all selected_stage selected_projects
     projects_list [] state = state"
| "find_build_set_loop try_read changes_in_branch build_all selected_stage selected_projects
     projects_list (stage # rest) (all_projects, build_set) =
     (if truthy selected_stage \<and> selected_stage \<noteq> Some (Stage.name stage)
      then find_build_set_loop try_read changes_in_branch build_all selected_stage
             selected_projects projects_list rest (all_projects, build_set)
      else if build_all \<or> truthy selected_projects
      then
        let all_projects' =
              (if truthy selected_projects
               then Set.filter (\<lambda>p. Project.name p \<in> set projects_list) all_projects
               else all_projects);
            projects = for_stage all_projects' stage;
            project_executions = (\<lambda>p. \<lparr>project = p, changed_files = {}\<rparr>) ` projects
        in find_build_set_loop try_read changes_in_branch build_all selected_stage
             selected_projects projects_list rest
             (all_projects', build_set(stage \<mapsto> project_executions))
      else
        let project_executions =
              build_project_executions try_read all_projects (Stage.name stage) changes_in_branch
        in find_build_set_loop try_read changes_in_branch build_all selected_stage
             selected_projects projects_list rest
             (all_projects, build_set(stage \<mapsto> project_executions)))"

text \<open>\<open>find_build_set\<close> (lines 113-148). No statement of the function raises, so every call
  returns the dictionary.\<close>

definition find_build_set ::
  "ArtifactLookup \<Rightarrow> Project set \<Rightarrow> Revision list \<Rightarrow> Stage list \<Rightarrow> bool \<Rightarrow>
   string option \<Rightarrow> string option \<Rightarrow> error + BuildSet" where
  "find_build_set try_read all_projects changes_in_branch stage_list build_all
     selected_stage selected_projects =
     (let projects_list =
            (case selected_projects of Some s \<Rightarrow> split_comma s | None \<Rightarrow> [])
      in Inr (snd (find_build_set_loop try_read changes_in_branch build_all selected_stage
                     selected_projects projects_list stage_list (all_projects, Map.empty))))"

section \<open>Notions used in the statements and proofs\<close>

text \<open>A stage of the list is considered unless the single-stage filter skips it
  (line 128).\<close>

definition considered :: "string option \<Rightarrow> Stage \<Rightarrow> bool" where
  "considered selected_stage stage =
     (\<not> (truthy selected_stage \<and> selected_stage \<noteq> Some (Stage.name stage)))"

text \<open>The value of the variable \<open>all_projects\<close> after lines 132-135.\<close>

definition narrowed :: "string option \<Rightarrow> string list \<Rightarrow> Project set \<Rightarrow> Project set" where
  "narrowed selected_projects projects_list all_projects =
     (if truthy selected_projects
      then Set.filter (\<lambda>p. Project.name p \<in> set projects_list) all_projects
      else all_projects)"

text \<open>The set that one pass of the loop body stores for its stage (lines 131-141).\<close>

definition stage_executions ::
  "ArtifactLookup \<Rightarrow> Revision list \<Rightarrow> bool \<Rightarrow> string option \<Rightarrow> string list \<Rightarrow>
   Project set \<Rightarrow> Stage \<Rightarrow> ProjectExecution set" where
  "stage_executions try_read changes_in_branch build_all selected_projects projects_list
     all_projects stage =
     (if build_all \<or> truthy selected_projects
      then (\<lambda>p. \<lparr>project = p, changed_files = {}\<rparr>) `
             for_stage (narrowed selected_projects projects_list all_projects) stage
      else build_project_executions try_read all_projects (Stage.name stage) changes_in_branch)"

text \<open>The list \<open>projects_list\<close> of line 123; the variable is bound, and read, only when
  \<open>selected_projects\<close> is truthy.\<close>

definition projects_list_of :: "string option \<Rightarrow> string list" where
  "projects_list_of selected_projects =
     (case selected_projects of Some s \<Rightarrow> split_comma s | None \<Rightarrow> [])"

section \<open>Example data\<close>

text \<open>The scenario of the specification: project A under \<open>svcA/\<close>, project B under
  \<open>svcB/\<close> with the build dependency \<open>shared/\<close>, and three revisions.\<close>

definition BUILD :: Stage where
  "BUILD = \<lparr>Stage.name = ''build''\<rparr>"

definition TEST :: Stage where
  "TEST = \<lparr>Stage.name = ''test''\<rparr>"

definition build_only :: Stages where
  "build_only stage = (if stage = ''build'' then Some ''Docker Build'' else None)"

definition deps_B :: Dependencies where
  "deps_B stage = (if stage = ''build'' then [''shared/''] else [])"

definition project_A :: Project where
  "project_A = \<lparr>Project.name = ''A'', root_path = ''svcA/'', target_path = ''svcA/target'',
     stages = build_only, dependencies = None\<rparr>"

definition project_B :: Project where
  "project_B = \<lparr>Project.name = ''B'', root_path = ''svcB/'', target_path = ''svcB/target'',
     stages = build_only, dependencies = Some deps_B\<rparr>"

definition r1 :: Revision where
  "r1 = \<lparr>ord = 1, hash = ''h1'', files_touched = {''shared/util.go''}\<rparr>"

definition r2 :: Revision where
  "r2 = \<lparr>ord = 2, hash = ''h2'', files_touched = {''svcA/main.go''}\<rparr>"

definition r3 :: Revision where
  "r3 = \<lparr>ord = 3, hash = ''h3'', files_touched = {''svcB/main.go''}\<rparr>"

definition no_outputs :: ArtifactLookup where
  "no_outputs target stage = None"

definition built_at_r2 :: ArtifactLookup where
  "built_at_r2 target stage =
     Some \<lparr>success = True, produced_artifact = Some \<lparr>revision = ''h2''\<rparr>\<rparr>"

text \<open>Project C under \<open>svcC/\<close>, whose entry for the build stage is the empty string,
  and a revision that touches it.\<close>

definition empty_entry :: Stages where
  "empty_entry stage = (if stage = ''build'' then Some [] else None)"

definition project_C :: Project where
  "project_C = \<lparr>Project.name = ''C'', root_path = ''svcC/'', target_path = ''svcC/target'',
     stages = empty_entry, dependencies = None\<rparr>"

definition rC :: Revision where
  "rC = \<lparr>ord = 4, hash = ''h4'', files_touched = {''svcC/main.go''}\<rparr>"

text \<open>An artifact store that differs from \<open>no_outputs\<close>, on a target path of neither
  project A nor project B.\<close>

definition outputs_elsewhere :: ArtifactLookup where
  "outputs_elsewhere target stage =
     (if target = ''svcC/target''
      then Some \<lparr>success = True, produced_artifact = Some \<lparr>revision = ''h1''\<rparr>\<rparr>
      else None)"

section \<open>Staleness and the invalidation predicate\<close>

lemma find_startswith_iff:
  "(\<exists>y. find (startswith path) ds = Some y) = (\<exists>d\<in>set ds. prefix d path)"
  by (induction ds) (auto simp: startswith_def)

text \<open>
  C3. For every optional Output and every candidate hash, \<open>output_invalidated\<close> is true
  exactly when the Output is absent, or records failure, or has no produced artifact, or
  its artifact's revision differs from the candidate hash.
\<close>

theorem output_invalidated_iff:
  "output_invalidated output h \<longleftrightarrow>
     (output = None
      \<or> (\<exists>out. output = Some out \<and> \<not> success out)
      \<or> (\<exists>out. output = Some out \<and> produced_artifact out = None)
      \<or> (\<exists>out artifact. output = Some out \<and> produced_artifact out = Some artifact
            \<and> revision artifact \<noteq> h))"
  by (auto simp: output_invalidated_def split: option.splits)

text \<open>
  C5. A changed path invalidates a project for a stage exactly when the path starts with
  the project's root path or with some entry of the project's dependencies for that
  stage; a project without a dependency table has the empty dependency set.
\<close>

theorem is_invalidated_iff:
  "is_invalidated proj stage path \<longleftrightarrow>
     (prefix (root_path proj) path
      \<or> (\<exists>d \<in> (case dependencies proj of None \<Rightarrow> {} | Some table \<Rightarrow> set (table stage)).
            prefix d path))"
  by (cases "dependencies proj")
     (simp_all add: is_invalidated_def find_startswith_iff startswith_def)

text \<open>
  C10. Matching is by raw string prefix, without a check for a path-component boundary:
  any path that extends the root path, or a declared dependency of the stage, by
  arbitrary text invalidates the project; root \<open>svcA\<close> is invalidated by
  \<open>svcAextra/file.go\<close>.
\<close>

theorem prefix_matching_has_no_boundary:
  "is_invalidated proj stage (root_path proj @ ext)
   \<and> is_invalidated (proj\<lparr>root_path := ''svcA''\<rparr>) stage ''svcAextra/file.go''
   \<and> (dependencies proj = Some table \<and> d \<in> set (table stage)
        \<longrightarrow> is_invalidated proj stage (d @ ext))"
proof -
  have root: "is_invalidated proj stage (root_path proj @ ext)"
    by (simp add: is_invalidated_def startswith_def)
  have example: "is_invalidated (proj\<lparr>root_path := ''svcA''\<rparr>) stage ''svcAextra/file.go''"
    by (simp add: is_invalidated_def startswith_def)
  have dep: "is_invalidated proj stage (d @ ext)"
    if "dependencies proj = Some table" and "d \<in> set (table stage)"
  proof -
    have "\<exists>d'\<in>set (table stage). prefix d' (d @ ext)"
      using that(2) by (rule bexI [rotated]) simp
    then show ?thesis
      using that(1) by (simp add: is_invalidated_def find_startswith_iff)
  qed
  from root example dep show ?thesis by simp
qed

theorem prefix_matching_has_no_boundary_witness:
  "dependencies project_B = Some deps_B \<and> ''shared/'' \<in> set (deps_B ''build'')
   \<and> is_invalidated project_B ''build'' ''shared/util.go''
   \<and> is_invalidated project_B ''build'' ''svcB/extra''
   \<and> is_invalidated (project_B\<lparr>root_path := ''svcA''\<rparr>) ''build'' ''svcAextra/file.go''"
  using prefix_matching_has_no_boundary [of project_B "''build''" "''util.go''" deps_B "''shared/''"]
    prefix_matching_has_no_boundary [of project_B "''build''" "''extra''"]
  by (simp add: project_B_def deps_B_def)

section \<open>The relevance accumulator\<close>

lemma relevant_loop_deploy:
  "relevant_loop STAGE_NAME output xs acc = acc \<union> \<Union> (files_touched ` set xs)"
  by (induction xs arbitrary: acc) auto

lemma relevant_loop_takeWhile:
  "stage \<noteq> STAGE_NAME \<Longrightarrow>
   relevant_loop stage output xs acc =
     acc \<union> \<Union> (files_touched ` set (takeWhile (\<lambda>r. output_invalidated output (hash r)) xs))"
  by (induction xs arbitrary: acc) auto

lemma descending_sort:
  "distinct (map ord xs) \<Longrightarrow> sorted_wrt (\<lambda>a b. ord b < ord a) (rev (sort_key ord xs))"
proof -
  assume d: "distinct (map ord xs)"
  have "sorted (map ord (sort_key ord xs))" by (rule sorted_sort_key)
  moreover have "distinct (map ord (sort_key ord xs))"
    using d by (simp add: distinct_map)
  ultimately have "sorted_wrt (<) (map ord (sort_key ord xs))"
    by (simp add: strict_sorted_iff)
  then show ?thesis by (simp add: sorted_wrt_map sorted_wrt_rev)
qed

lemma takeWhile_newer:
  "sorted_wrt (\<lambda>a b. ord b < ord a) xs \<Longrightarrow> r \<in> set xs \<Longrightarrow> \<not> P r \<Longrightarrow>
   (\<forall>r'\<in>set xs. ord r < ord r' \<longrightarrow> P r') \<Longrightarrow>
   set (takeWhile P xs) = {r' \<in> set xs. ord r < ord r'}"
proof (induction xs)
  case Nil
  then show ?case by simp
next
  case (Cons x xs)
  show ?case
  proof (cases "x = r")
    case True
    with Cons.prems show ?thesis by (auto simp: less_imp_not_less)
  next
    case False
    with Cons.prems have rin: "r \<in> set xs" and lt: "ord r < ord x" by auto
    with Cons.prems have px: "P x" by auto
    have "set (takeWhile P xs) = {r' \<in> set xs. ord r < ord r'}"
      using Cons.IH Cons.prems rin by auto
    with px lt show ?thesis by auto
  qed
qed

text \<open>
  C2. For the deploy stage the relevant changes are the union of the touched files of
  every revision of the history, whatever Output is recorded.
\<close>

theorem deploy_relevant_changes:
  "to_relevant_changes try_read proj STAGE_NAME change_history =
     \<Union> (files_touched ` set change_history)"
  by (simp add: to_relevant_changes_def relevant_loop_deploy)

text \<open>
  C1. For a stage other than deploy and a history with pairwise distinct ordinals, let
  \<open>r\<close> be the first revision in descending ordinal order against whose hash the recorded
  Output is not stale (\<open>r\<close> is not stale, every revision with a greater ordinal is). Then
  the relevant changes are exactly the union of the touched files of the revisions
  strictly newer than \<open>r\<close>. In particular, for the history \<open>[rc, rb, ra]\<close> with \<open>rc\<close> newest
  and \<open>ra\<close> oldest and a successful Output whose artifact revision is the hash of \<open>rb\<close>
  (and not that of \<open>rc\<close>), the relevant changes are the touched files of \<open>rc\<close> only.
\<close>

theorem stop_condition:
  "stage \<noteq> STAGE_NAME \<Longrightarrow>
   (distinct (map ord (change_history :: Revision list)) \<and> r \<in> set change_history
      \<and> \<not> output_invalidated (try_read (target_path proj) stage) (hash r)
      \<and> (\<forall>r'\<in>set change_history.
            ord r < ord r' \<longrightarrow> output_invalidated (try_read (target_path proj) stage) (hash r'))
    \<longrightarrow> to_relevant_changes try_read proj stage change_history =
          \<Union> (files_touched ` {r' \<in> set change_history. ord r < ord r'}))
   \<and> (ord (ra :: Revision) < ord (rb :: Revision) \<and> ord rb < ord (rc :: Revision)
      \<and> hash rc \<noteq> hash rb
      \<and> try_read (target_path proj) stage = Some out \<and> success out
      \<and> produced_artifact out = Some artifact \<and> revision artifact = hash rb
    \<longrightarrow> to_relevant_changes try_read proj stage [rc, rb, ra] = files_touched rc)"
proof -
  assume nd: "stage \<noteq> STAGE_NAME"
  let ?out = "try_read (target_path proj) stage"
  let ?stale = "\<lambda>r. output_invalidated ?out (hash r)"
  have general: "to_relevant_changes try_read proj stage h =
      \<Union> (files_touched ` {r' \<in> set h. ord x < ord r'})"
    if d: "distinct (map ord h)" and x: "x \<in> set h" and fresh: "\<not> ?stale x"
      and newer: "\<forall>r'\<in>set h. ord x < ord r' \<longrightarrow> ?stale r'"
    for h :: "Revision list" and x
  proof -
    let ?xs = "rev (sort_key ord h)"
    have "set (takeWhile ?stale ?xs) = {r' \<in> set ?xs. ord x < ord r'}"
      using descending_sort [OF d] x fresh newer by (intro takeWhile_newer) simp_all
    then show ?thesis
      by (simp add: to_relevant_changes_def relevant_loop_takeWhile [OF nd])
  qed
  have particular: "to_relevant_changes try_read proj stage [rc, rb, ra] = files_touched rc"
    if "ord ra < ord rb" "ord rb < ord rc" "hash rc \<noteq> hash rb" "?out = Some out" "success out"
      "produced_artifact out = Some artifact" "revision artifact = hash rb"
  proof -
    have "to_relevant_changes try_read proj stage [rc, rb, ra] =
        \<Union> (files_touched ` {r' \<in> set [rc, rb, ra]. ord rb < ord r'})"
      using that by (intro general) (auto simp: output_invalidated_def)
    also have "{r' \<in> set [rc, rb, ra]. ord rb < ord r'} = {rc}"
      using that by auto
    finally show ?thesis by simp
  qed
  show ?thesis
  proof (intro conjI impI)
    assume "distinct (map ord change_history) \<and> r \<in> set change_history
         \<and> \<not> ?stale r \<and> (\<forall>r'\<in>set change_history. ord r < ord r' \<longrightarrow> ?stale r')"
    then show "to_relevant_changes try_read proj stage change_history =
        \<Union> (files_touched ` {r' \<in> set change_history. ord r < ord r'})"
      by (elim conjE) (rule general)
  next
    assume "ord ra < ord rb \<and> ord rb < ord rc \<and> hash rc \<noteq> hash rb
         \<and> ?out = Some out \<and> success out
         \<and> produced_artifact out = Some artifact \<and> revision artifact = hash rb"
    then show "to_relevant_changes try_read proj stage [rc, rb, ra] = files_touched rc"
      by (elim conjE) (rule particular)
  qed
qed

theorem stop_condition_witness:
  "''build'' \<noteq> STAGE_NAME
   \<and> distinct (map ord [r1, r3, r2]) \<and> r2 \<in> set [r1, r3, r2]
   \<and> \<not> output_invalidated (built_at_r2 (target_path project_A) ''build'') (hash r2)
   \<and> output_invalidated (built_at_r2 (target_path project_A) ''build'') (hash r3)
   \<and> ord r1 < ord r2 \<and> ord r2 < ord r3 \<and> hash r3 \<noteq> hash r2
   \<and> to_relevant_changes built_at_r2 project_A ''build'' [r1, r3, r2] = files_touched r3
   \<and> to_relevant_changes built_at_r2 project_A ''build'' [r3, r2, r1] = {''svcB/main.go''}"
proof -
  have nd: "''build'' \<noteq> STAGE_NAME" by (simp add: STAGE_NAME_def)
  let ?out = "\<lparr>success = True, produced_artifact = Some \<lparr>revision = ''h2''\<rparr>\<rparr>"
  note inst = stop_condition [OF nd, of _ _ built_at_r2 project_A r1 r2 r3 ?out
      "\<lparr>revision = ''h2''\<rparr>"]
  have fresh: "\<not> output_invalidated (built_at_r2 (target_path project_A) ''build'') (hash r2)"
    by (simp add: output_invalidated_def built_at_r2_def r2_def)
  have stale: "output_invalidated (built_at_r2 (target_path project_A) ''build'') (hash r3)"
    by (simp add: output_invalidated_def built_at_r2_def r3_def)
  have d: "distinct (map ord [r1, r3, r2])" by (simp add: r1_def r2_def r3_def)
  have order: "ord r1 < ord r2 \<and> ord r2 < ord r3 \<and> hash r3 \<noteq> hash r2"
    by (simp add: r1_def r2_def r3_def)
  have newer: "\<forall>r'\<in>set [r1, r3, r2]. ord r2 < ord r' \<longrightarrow>
      output_invalidated (built_at_r2 (target_path project_A) ''build'') (hash r')"
    using stale by (simp add: r1_def r2_def)
  have "to_relevant_changes built_at_r2 project_A ''build'' [r1, r3, r2] =
      \<Union> (files_touched ` {r' \<in> set [r1, r3, r2]. ord r2 < ord r'})"
    using inst [of "[r1, r3, r2]" r2] d fresh newer by simp
  also have "{r' \<in> set [r1, r3, r2]. ord r2 < ord r'} = {r3}"
    by (auto simp: r1_def r2_def r3_def)
  finally have a: "to_relevant_changes built_at_r2 project_A ''build'' [r1, r3, r2] =
      files_touched r3" by simp
  have "to_relevant_changes built_at_r2 project_A ''build'' [r3, r2, r1] = files_touched r3"
    using inst [of "[]" r2] order by (simp add: built_at_r2_def r2_def)
  then have b: "to_relevant_changes built_at_r2 project_A ''build'' [r3, r2, r1] =
      {''svcB/main.go''}" by (simp add: r3_def)
  from nd d fresh stale order a b show ?thesis by simp
qed

section \<open>The build set resolver\<close>

lemma narrowed_idem:
  "narrowed sp pl (narrowed sp pl ap) = narrowed sp pl ap"
  by (auto simp: narrowed_def)

lemma stage_executions_narrowed:
  "build_all \<or> truthy sp \<Longrightarrow>
   stage_executions tr ch build_all sp pl (narrowed sp pl ap) s =
   stage_executions tr ch build_all sp pl ap s"
  by (simp add: stage_executions_def narrowed_idem)

lemma loop_skip:
  "\<not> considered ss st \<Longrightarrow>
   find_build_set_loop tr ch build_all ss sp pl (st # rest) (ap, bs) =
   find_build_set_loop tr ch build_all ss sp pl rest (ap, bs)"
  by (auto simp: considered_def)

lemma loop_forced:
  "considered ss st \<Longrightarrow> build_all \<or> truthy sp \<Longrightarrow>
   find_build_set_loop tr ch build_all ss sp pl (st # rest) (ap, bs) =
   find_build_set_loop tr ch build_all ss sp pl rest
     (narrowed sp pl ap, bs(st \<mapsto> stage_executions tr ch build_all sp pl ap st))"
  by (auto simp: considered_def stage_executions_def narrowed_def Let_def)

lemma loop_incremental:
  "considered ss st \<Longrightarrow> \<not> (build_all \<or> truthy sp) \<Longrightarrow>
   find_build_set_loop tr ch build_all ss sp pl (st # rest) (ap, bs) =
   find_build_set_loop tr ch build_all ss sp pl rest
     (ap, bs(st \<mapsto> stage_executions tr ch build_all sp pl ap st))"
  by (auto simp: considered_def stage_executions_def Let_def)

lemma loop_lookup:
  "snd (find_build_set_loop tr ch build_all ss sp pl sts (ap, bs)) s =
     (if s \<in> set sts \<and> considered ss s
      then Some (stage_executions tr ch build_all sp pl ap s)
      else bs s)"
proof (induction sts arbitrary: ap bs)
  case Nil
  show ?case by simp
next
  case (Cons st rest)
  let ?E = "stage_executions tr ch build_all sp pl ap st"
  show ?case
  proof (cases "considered ss st")
    case False
    have "s = st \<Longrightarrow> \<not> considered ss s" using False by simp
    then show ?thesis
      unfolding loop_skip [OF False] Cons.IH by auto
  next
    case True
    show ?thesis
    proof (cases "build_all \<or> truthy sp")
      case forced: True
      show ?thesis
        unfolding loop_forced [OF True forced] Cons.IH
        using True forced by (auto simp: stage_executions_narrowed)
    next
      case incremental: False
      show ?thesis
        unfolding loop_incremental [OF True incremental] Cons.IH
        using True by auto
    qed
  qed
qed

lemma find_build_set_lookup:
  "find_build_set tr ap ch sts build_all ss sp =
     Inr (\<lambda>s. if s \<in> set sts \<and> considered ss s
               then Some (stage_executions tr ch build_all sp (projects_list_of sp) ap s)
               else None)"
  by (simp add: find_build_set_def loop_lookup fun_eq_iff projects_list_of_def)

lemma build_project_executions_iff:
  "e \<in> build_project_executions tr ap stage ch \<longleftrightarrow>
     (\<exists>p\<in>ap. to_project_execution tr p stage ch = Some e)"
  by (force simp: build_project_executions_def in_these_eq image_iff)

lemma to_project_execution_Some:
  "to_project_execution tr p stage ch = Some e \<Longrightarrow>
   project e = p \<and> stages p stage \<noteq> None \<and> changed_files e \<noteq> {}
   \<and> changed_files e \<subseteq> to_relevant_changes tr p stage ch"
  by (auto simp: to_project_execution_def Let_def split: if_splits)

lemma for_stage_iff:
  "p \<in> for_stage ps s \<longleftrightarrow> p \<in> ps \<and> truthy (stages p (Stage.name s))"
  by (simp add: for_stage_def)

lemma truthy_not_None: "truthy v \<Longrightarrow> v \<noteq> None"
  by (cases v) (simp_all add: truthy_def)

lemma stage_executions_participate:
  "e \<in> stage_executions tr ch build_all sp pl ap s \<Longrightarrow>
   stages (project e) (Stage.name s) \<noteq> None"
  by (auto simp: stage_executions_def for_stage_iff build_project_executions_iff
      dest: to_project_execution_Some truthy_not_None split: if_splits)

lemma stage_executions_in_narrowed:
  "build_all \<or> truthy sp \<Longrightarrow> e \<in> stage_executions tr ch build_all sp pl ap s \<Longrightarrow>
   project e \<in> narrowed sp pl ap"
  by (auto simp: stage_executions_def for_stage_iff)

text \<open>
  C8. In every build set the resolver returns, under forced full build, under an explicit
  project filter and in incremental mode alike, an execution is a member of a stage's set
  only if its project has an entry for that stage.
\<close>

theorem executions_participate:
  "find_build_set try_read all_projects changes_in_branch stage_list build_all
     selected_stage selected_projects = Inr build_set \<Longrightarrow>
   build_set s = Some E \<Longrightarrow> e \<in> E \<Longrightarrow>
   stages (project e) (Stage.name s) \<noteq> None"
  by (auto simp: find_build_set_lookup split: if_splits dest: stage_executions_participate)

text \<open>
  C6 (as amended). With \<open>build_all\<close> true, for every stage of the list that the single-stage
  filter does not skip and for every revision history (the empty one included), the
  set stored for the stage holds only executions with the empty set of changed files,
  each for a candidate project whose entry for the stage is present, and it holds exactly
  one execution for every candidate project whose entry for the stage is present and not
  the empty string. The candidates are all loaded projects when no project-name filter is
  passed, and the loaded projects named by the filter when one is passed.
\<close>

theorem forced_full_build:
  "build_all \<Longrightarrow> s \<in> set stage_list \<Longrightarrow> considered selected_stage s \<Longrightarrow>
   candidates =
     (case selected_projects of
        None \<Rightarrow> all_projects
      | Some names \<Rightarrow>
          if names = [] then all_projects
          else {p \<in> all_projects. Project.name p \<in> set (split_comma names)}) \<Longrightarrow>
   \<exists>build_set E.
     find_build_set try_read all_projects changes_in_branch stage_list build_all
       selected_stage selected_projects = Inr build_set
     \<and> build_set s = Some E
     \<and> (\<forall>e\<in>E. changed_files e = {} \<and> project e \<in> candidates
                \<and> stages (project e) (Stage.name s) \<noteq> None)
     \<and> (\<forall>p\<in>candidates. \<forall>step. stages p (Stage.name s) = Some step \<and> step \<noteq> []
            \<longrightarrow> (\<exists>!e. e \<in> E \<and> project e = p))"
proof -
  assume a: build_all "s \<in> set stage_list" "considered selected_stage s"
    and cand: "candidates =
     (case selected_projects of
        None \<Rightarrow> all_projects
      | Some names \<Rightarrow>
          if names = [] then all_projects
          else {p \<in> all_projects. Project.name p \<in> set (split_comma names)})"
  let ?E = "(\<lambda>p. \<lparr>project = p, changed_files = {}\<rparr>) ` for_stage candidates s"
  have c: "narrowed selected_projects (projects_list_of selected_projects) all_projects =
      candidates"
    unfolding cand
    by (auto simp: narrowed_def projects_list_of_def truthy_def split: option.splits)
  have "stage_executions try_read changes_in_branch build_all selected_projects
      (projects_list_of selected_projects) all_projects s = ?E"
    using a(1) by (simp add: stage_executions_def c)
  then have 1: "\<exists>build_set. find_build_set try_read all_projects changes_in_branch stage_list
      build_all selected_stage selected_projects = Inr build_set \<and> build_set s = Some ?E"
    using a by (simp add: find_build_set_lookup)
  have 3: "\<forall>e\<in>?E. changed_files e = {} \<and> project e \<in> candidates
      \<and> stages (project e) (Stage.name s) \<noteq> None"
    by (auto simp: for_stage_iff dest: truthy_not_None)
  have 4: "\<forall>p\<in>candidates. \<forall>step. stages p (Stage.name s) = Some step \<and> step \<noteq> []
      \<longrightarrow> (\<exists>!e. e \<in> ?E \<and> project e = p)"
  proof (intro ballI allI impI)
    fix p step
    assume p: "p \<in> candidates" and st: "stages p (Stage.name s) = Some step \<and> step \<noteq> []"
    then have "p \<in> for_stage candidates s"
      by (simp add: for_stage_iff truthy_def)
    then have "\<lparr>project = p, changed_files = {}\<rparr> \<in> ?E" by (rule imageI)
    then show "\<exists>!e. e \<in> ?E \<and> project e = p" by auto
  qed
  from 1 3 4 show ?thesis by blast
qed

text \<open>
  C7. The resolver is deterministic: two calls with the same projects, history, stages and
  selection policy, and with artifact stores that record the same Output for every loaded
  project and every stage of the list, return the same build set.
\<close>

theorem find_build_set_deterministic:
  "\<forall>p\<in>all_projects. \<forall>s\<in>set stage_list.
      read1 (target_path p) (Stage.name s) = read2 (target_path p) (Stage.name s) \<Longrightarrow>
   find_build_set read1 all_projects changes_in_branch stage_list build_all
     selected_stage selected_projects =
   find_build_set read2 all_projects changes_in_branch stage_list build_all
     selected_stage selected_projects"
proof -
  assume agree: "\<forall>p\<in>all_projects. \<forall>s\<in>set stage_list.
      read1 (target_path p) (Stage.name s) = read2 (target_path p) (Stage.name s)"
  have "to_project_execution read1 p (Stage.name s) changes_in_branch =
        to_project_execution read2 p (Stage.name s) changes_in_branch"
    if "p \<in> all_projects" "s \<in> set stage_list" for p s
    using agree that by (simp add: to_project_execution_def to_relevant_changes_def)
  then have "build_project_executions read1 all_projects (Stage.name s) changes_in_branch =
        build_project_executions read2 all_projects (Stage.name s) changes_in_branch"
    if "s \<in> set stage_list" for s
    using that by (simp add: build_project_executions_def cong: image_cong)
  then have "stage_executions read1 changes_in_branch build_all selected_projects pl all_projects s =
        stage_executions read2 changes_in_branch build_all selected_projects pl all_projects s"
    if "s \<in> set stage_list" for s pl
    using that by (simp add: stage_executions_def)
  then show ?thesis
    by (auto simp: find_build_set_lookup fun_eq_iff)
qed

text \<open>
  C4 (as amended). The resolver has no failure mode of its own: every call returns a build
  set. With an explicit project-name filter, every execution in the build set is for a
  loaded project whose name is in the filter, so a name that no loaded project carries
  contributes nothing and raises nothing.
\<close>

theorem no_configuration_error:
  "\<exists>build_set.
     find_build_set try_read all_projects changes_in_branch stage_list build_all
       selected_stage selected_projects = Inr build_set
     \<and> (selected_projects = Some names \<and> names \<noteq> [] \<and> build_set s = Some E \<and> e \<in> E
          \<longrightarrow> project e \<in> all_projects
              \<and> Project.name (project e) \<in> set (split_comma names))"
proof -
  have "project e \<in> all_projects \<and> Project.name (project e) \<in> set (split_comma names)"
    if "selected_projects = Some names" "names \<noteq> []"
      and "e \<in> stage_executions try_read changes_in_branch build_all selected_projects
        (projects_list_of selected_projects) all_projects s"
    using stage_executions_in_narrowed [OF _ that(3)] that(1,2)
    by (auto simp: narrowed_def truthy_def projects_list_of_def)
  then show ?thesis
    by (auto simp: find_build_set_lookup split: if_splits)
qed


lemma example_A_untouched:
  "to_project_execution no_outputs project_A ''build'' [r1] = None"
  by (simp add: to_project_execution_def to_relevant_changes_def is_invalidated_def
      startswith_def output_invalidated_def no_outputs_def project_A_def build_only_def r1_def)

lemma example_B_invalidated:
  "to_project_execution no_outputs project_B ''build'' [r1] =
     Some \<lparr>project = project_B, changed_files = {''shared/util.go''}\<rparr>"
  by (auto simp: to_project_execution_def to_relevant_changes_def is_invalidated_def
      startswith_def output_invalidated_def no_outputs_def project_B_def build_only_def
      deps_B_def r1_def)

lemma example_incremental:
  "find_build_set no_outputs {project_A, project_B} [r1] [BUILD] False None None =
     Inr [BUILD \<mapsto> {\<lparr>project = project_B, changed_files = {''shared/util.go''}\<rparr>}]"
  by (simp add: find_build_set_def truthy_def build_project_executions_def BUILD_def
      example_A_untouched example_B_invalidated)

lemma example_forced_BUILD:
  "stage_executions no_outputs [] True None [] {project_A, project_B} BUILD =
     {\<lparr>project = project_A, changed_files = {}\<rparr>, \<lparr>project = project_B, changed_files = {}\<rparr>}"
  by (auto simp: stage_executions_def narrowed_def for_stage_def truthy_def BUILD_def
      project_A_def project_B_def build_only_def)

lemma example_forced_TEST:
  "stage_executions no_outputs [] True None [] {project_A, project_B} TEST = {}"
  by (auto simp: stage_executions_def narrowed_def for_stage_def truthy_def TEST_def
      project_A_def project_B_def build_only_def)

lemma BUILD_neq_TEST: "BUILD \<noteq> TEST"
  by (simp add: BUILD_def TEST_def)

lemma example_forced:
  "find_build_set no_outputs {project_A, project_B} [] [BUILD, TEST] True None None =
     Inr [BUILD \<mapsto> {\<lparr>project = project_A, changed_files = {}\<rparr>,
                     \<lparr>project = project_B, changed_files = {}\<rparr>},
          TEST \<mapsto> {}]"
  using BUILD_neq_TEST
  by (auto simp: find_build_set_lookup fun_eq_iff considered_def truthy_def
      projects_list_of_def example_forced_BUILD example_forced_TEST)

lemma example_filtered_BUILD:
  "stage_executions no_outputs [r1] False (Some ''A,ghost'') (split_comma ''A,ghost'')
     {project_A, project_B} BUILD = {\<lparr>project = project_A, changed_files = {}\<rparr>}"
  by (auto simp: stage_executions_def narrowed_def for_stage_def truthy_def BUILD_def
      project_A_def project_B_def build_only_def)

lemma example_filtered:
  "find_build_set no_outputs {project_A, project_B} [r1] [BUILD] False None (Some ''A,ghost'') =
     Inr [BUILD \<mapsto> {\<lparr>project = project_A, changed_files = {}\<rparr>}]"
  by (auto simp: find_build_set_lookup fun_eq_iff considered_def truthy_def
      projects_list_of_def example_filtered_BUILD simp del: split_comma.simps)


theorem executions_participate_witness:
  "find_build_set no_outputs {project_A, project_B} [r1] [BUILD] False None None =
     Inr [BUILD \<mapsto> {\<lparr>project = project_B, changed_files = {''shared/util.go''}\<rparr>}]
   \<and> stages project_B (Stage.name BUILD) \<noteq> None
   \<and> find_build_set no_outputs {project_A, project_B} [] [BUILD, TEST] True None None =
     Inr [BUILD \<mapsto> {\<lparr>project = project_A, changed_files = {}\<rparr>,
                     \<lparr>project = project_B, changed_files = {}\<rparr>},
          TEST \<mapsto> {}]
   \<and> stages project_A (Stage.name BUILD) \<noteq> None"
proof -
  let ?eB = "\<lparr>project = project_B, changed_files = {''shared/util.go''}\<rparr>"
  let ?eA = "\<lparr>project = project_A, changed_files = {}\<rparr>"
  have "stages (project ?eB) (Stage.name BUILD) \<noteq> None"
    by (rule executions_participate [OF example_incremental, of BUILD "{?eB}"]) simp_all
  moreover have "stages (project ?eA) (Stage.name BUILD) \<noteq> None"
    by (rule executions_participate [OF example_forced, of BUILD
          "{?eA, \<lparr>project = project_B, changed_files = {}\<rparr>}"])
       (simp_all add: BUILD_neq_TEST)
  ultimately show ?thesis
    using example_incremental example_forced by simp
qed

theorem forced_full_build_witness:
  "BUILD \<in> set [BUILD, TEST] \<and> considered None BUILD
   \<and> project_A \<in> {project_A, project_B}
   \<and> stages project_A (Stage.name BUILD) = Some ''Docker Build'' \<and> ''Docker Build'' \<noteq> []
   \<and> (\<exists>build_set E.
        find_build_set no_outputs {project_A, project_B} [] [BUILD, TEST] True None None =
          Inr build_set
        \<and> build_set BUILD = Some E
        \<and> (\<exists>!e. e \<in> E \<and> project e = project_A))"
proof -
  have s: "BUILD \<in> set [BUILD, TEST]" by simp
  have c: "considered None BUILD" by (simp add: considered_def truthy_def)
  have cand: "{project_A, project_B} =
      (case None :: string option of None \<Rightarrow> {project_A, project_B}
       | Some names \<Rightarrow> if names = [] then {project_A, project_B}
           else {p \<in> {project_A, project_B}. Project.name p \<in> set (split_comma names)})"
    by simp
  have p: "project_A \<in> {project_A, project_B}" by simp
  have e: "stages project_A (Stage.name BUILD) = Some ''Docker Build''"
    by (simp add: project_A_def BUILD_def build_only_def)
  have ne: "''Docker Build'' \<noteq> []" by simp
  from forced_full_build [OF TrueI s c cand, where try_read = no_outputs
      and changes_in_branch = "[]"]
  obtain build_set E where
    r: "find_build_set no_outputs {project_A, project_B} [] [BUILD, TEST] True None None =
          Inr build_set"
    and b: "build_set BUILD = Some E"
    and u: "\<forall>p\<in>{project_A, project_B}. \<forall>step.
        stages p (Stage.name BUILD) = Some step \<and> step \<noteq> []
          \<longrightarrow> (\<exists>!e. e \<in> E \<and> project e = p)"
    by blast
  from u p e ne have "\<exists>!e. e \<in> E \<and> project e = project_A" by blast
  with r b s c p e ne show ?thesis by blast
qed

lemma example_build_all_filtered_BUILD:
  "stage_executions no_outputs [] True (Some ''A'') (split_comma ''A'')
     {project_A, project_B} BUILD = {\<lparr>project = project_A, changed_files = {}\<rparr>}"
  by (auto simp: stage_executions_def narrowed_def for_stage_def truthy_def BUILD_def
      project_A_def project_B_def build_only_def)

lemma example_build_all_filtered:
  "find_build_set no_outputs {project_A, project_B} [] [BUILD] True None (Some ''A'') =
     Inr [BUILD \<mapsto> {\<lparr>project = project_A, changed_files = {}\<rparr>}]"
  by (auto simp: find_build_set_lookup fun_eq_iff considered_def truthy_def
      projects_list_of_def example_build_all_filtered_BUILD simp del: split_comma.simps)

lemma example_empty_entry_BUILD:
  "stage_executions no_outputs [] True None [] {project_A, project_C} BUILD =
     {\<lparr>project = project_A, changed_files = {}\<rparr>}"
  by (auto simp: stage_executions_def narrowed_def for_stage_def truthy_def BUILD_def
      project_A_def project_C_def build_only_def empty_entry_def)

lemma example_empty_entry:
  "find_build_set no_outputs {project_A, project_C} [] [BUILD] True None None =
     Inr [BUILD \<mapsto> {\<lparr>project = project_A, changed_files = {}\<rparr>}]"
  by (auto simp: find_build_set_lookup fun_eq_iff considered_def truthy_def
      projects_list_of_def example_empty_entry_BUILD)

text \<open>
  The claim as first stated fails at two inputs. With \<open>build_all\<close> and the filter \<open>A\<close>,
  project B takes part in the build stage and is not scheduled (lines 132-135 narrow the
  projects first). With \<open>build_all\<close> alone, project C has an entry for the build stage, the
  empty string, and is not scheduled (line 152 tests the truth value of the entry).
\<close>

theorem forced_full_build_counterexample:
  "stages project_B (Stage.name BUILD) = Some ''Docker Build''
   \<and> project_B \<in> {project_A, project_B}
   \<and> find_build_set no_outputs {project_A, project_B} [] [BUILD] True None (Some ''A'') =
       Inr [BUILD \<mapsto> {\<lparr>project = project_A, changed_files = {}\<rparr>}]
   \<and> \<lparr>project = project_B, changed_files = {}\<rparr> \<notin> {\<lparr>project = project_A, changed_files = {}\<rparr>}
   \<and> stages project_C (Stage.name BUILD) = Some []
   \<and> project_C \<in> {project_A, project_C}
   \<and> find_build_set no_outputs {project_A, project_C} [] [BUILD] True None None =
       Inr [BUILD \<mapsto> {\<lparr>project = project_A, changed_files = {}\<rparr>}]
   \<and> \<lparr>project = project_C, changed_files = {}\<rparr> \<notin> {\<lparr>project = project_A, changed_files = {}\<rparr>}"
proof -
  have "stages project_B (Stage.name BUILD) = Some ''Docker Build''"
    by (simp add: project_B_def BUILD_def build_only_def)
  moreover have "stages project_C (Stage.name BUILD) = Some []"
    by (simp add: project_C_def BUILD_def empty_entry_def)
  moreover have "\<lparr>project = project_B, changed_files = {}\<rparr> \<notin>
      {\<lparr>project = project_A, changed_files = {}\<rparr>}"
    by (simp add: project_A_def project_B_def)
  moreover have "\<lparr>project = project_C, changed_files = {}\<rparr> \<notin>
      {\<lparr>project = project_A, changed_files = {}\<rparr>}"
    by (simp add: project_A_def project_C_def)
  ultimately show ?thesis
    using example_build_all_filtered example_empty_entry by simp
qed

text \<open>Incremental mode tests the entry against \<open>None\<close> (line 74), so it does schedule
  project C when a revision touches it.\<close>

lemma empty_entry_scheduled_incrementally:
  "to_project_execution no_outputs project_C ''build'' [rC] =
     Some \<lparr>project = project_C, changed_files = {''svcC/main.go''}\<rparr>"
  by (auto simp: to_project_execution_def to_relevant_changes_def is_invalidated_def
      startswith_def output_invalidated_def no_outputs_def project_C_def empty_entry_def
      rC_def)

lemma stores_differ: "no_outputs \<noteq> outputs_elsewhere"
proof
  assume "no_outputs = outputs_elsewhere"
  then have "no_outputs ''svcC/target'' ''build'' = outputs_elsewhere ''svcC/target'' ''build''"
    by simp
  then show False by (simp add: no_outputs_def outputs_elsewhere_def)
qed

theorem find_build_set_deterministic_witness:
  "no_outputs \<noteq> outputs_elsewhere
   \<and> no_outputs (target_path project_A) (Stage.name BUILD) =
       outputs_elsewhere (target_path project_A) (Stage.name BUILD)
   \<and> no_outputs (target_path project_B) (Stage.name BUILD) =
       outputs_elsewhere (target_path project_B) (Stage.name BUILD)
   \<and> find_build_set outputs_elsewhere {project_A, project_B} [r1] [BUILD] False None None =
       Inr [BUILD \<mapsto> {\<lparr>project = project_B, changed_files = {''shared/util.go''}\<rparr>}]"
proof -
  have a: "no_outputs (target_path project_A) (Stage.name BUILD) =
      outputs_elsewhere (target_path project_A) (Stage.name BUILD)"
    by (simp add: no_outputs_def outputs_elsewhere_def project_A_def)
  have b: "no_outputs (target_path project_B) (Stage.name BUILD) =
      outputs_elsewhere (target_path project_B) (Stage.name BUILD)"
    by (simp add: no_outputs_def outputs_elsewhere_def project_B_def)
  have "\<forall>p\<in>{project_A, project_B}. \<forall>s\<in>set [BUILD].
      no_outputs (target_path p) (Stage.name s) = outputs_elsewhere (target_path p) (Stage.name s)"
    using a b by simp
  from find_build_set_deterministic [OF this, of "[r1]" False None None]
  have "find_build_set outputs_elsewhere {project_A, project_B} [r1] [BUILD] False None None =
      Inr [BUILD \<mapsto> {\<lparr>project = project_B, changed_files = {''shared/util.go''}\<rparr>}]"
    using example_incremental by simp
  with stores_differ a b show ?thesis by simp
qed

theorem no_configuration_error_witness:
  "''A,ghost'' \<noteq> []
   \<and> (\<exists>build_set.
        find_build_set no_outputs {project_A, project_B} [r1] [BUILD] False None
          (Some ''A,ghost'') = Inr build_set
        \<and> build_set BUILD = Some {\<lparr>project = project_A, changed_files = {}\<rparr>})
   \<and> project_A \<in> {project_A, project_B}
   \<and> Project.name project_A \<in> set (split_comma ''A,ghost'')"
proof -
  let ?e = "\<lparr>project = project_A, changed_files = {}\<rparr>"
  from no_configuration_error [where try_read = no_outputs
      and all_projects = "{project_A, project_B}" and changes_in_branch = "[r1]"
      and stage_list = "[BUILD]" and build_all = False and selected_stage = None
      and selected_projects = "Some ''A,ghost''" and names = "''A,ghost''"
      and s = BUILD and E = "{?e}" and e = ?e]
  obtain build_set where
    r: "find_build_set no_outputs {project_A, project_B} [r1] [BUILD] False None
          (Some ''A,ghost'') = Inr build_set"
    and i: "Some ''A,ghost'' = Some ''A,ghost'' \<and> ''A,ghost'' \<noteq> [] \<and> build_set BUILD = Some {?e}
          \<and> ?e \<in> {?e}
        \<longrightarrow> project ?e \<in> {project_A, project_B}
            \<and> Project.name (project ?e) \<in> set (split_comma ''A,ghost'')"
    by blast
  from r have "Inr build_set = (Inr [BUILD \<mapsto> {?e}] :: error + BuildSet)"
    unfolding example_filtered by simp
  then have "build_set = [BUILD \<mapsto> {?e}]" by simp
  then have b: "build_set BUILD = Some {?e}" by simp
  with i have "project ?e \<in> {project_A, project_B}
      \<and> Project.name (project ?e) \<in> set (split_comma ''A,ghost'')"
    by (simp del: split_comma.simps)
  with r b show ?thesis by (auto simp del: split_comma.simps)
qed

text \<open>
  The filter \<open>A,ghost\<close> names a project that is not loaded; the call returns the build set
  with project A alone and signals no \<open>ConfigurationInvalid\<close>.
\<close>

theorem configuration_error_counterexample:
  "''ghost'' \<in> set (split_comma ''A,ghost'')
   \<and> ''ghost'' \<notin> Project.name ` {project_A, project_B}
   \<and> find_build_set no_outputs {project_A, project_B} [r1] [BUILD] False None
       (Some ''A,ghost'') =
       Inr [BUILD \<mapsto> {\<lparr>project = project_A, changed_files = {}\<rparr>}]
   \<and> find_build_set no_outputs {project_A, project_B} [r1] [BUILD] False None
       (Some ''A,ghost'') \<noteq> Inl ConfigurationInvalid"
proof -
  have "''ghost'' \<in> set (split_comma ''A,ghost'')" by simp
  moreover have "''ghost'' \<notin> Project.name ` {project_A, project_B}"
    by (simp add: project_A_def project_B_def)
  ultimately show ?thesis using example_filtered by simp
qed

text \<open>
  C9. Dependency propagation, end to end: project A under \<open>svcA/\<close> without dependencies,
  project B under \<open>svcB/\<close> whose dependencies for the stage are \<open>shared/\<close>, both taking
  part in the stage, a history of one revision that touches \<open>shared/util.go\<close>, and no
  recorded Output for either. The incremental build set for the stage holds no execution
  for A and exactly one for B, with changed files \<open>shared/util.go\<close>.
\<close>

theorem dependency_propagation:
  "root_path A = ''svcA/'' \<Longrightarrow> dependencies A = None \<Longrightarrow>
   stages A (Stage.name st) \<noteq> None \<Longrightarrow>
   root_path B = ''svcB/'' \<Longrightarrow> dependencies B = Some table \<Longrightarrow>
   set (table (Stage.name st)) = {''shared/''} \<Longrightarrow>
   stages B (Stage.name st) \<noteq> None \<Longrightarrow>
   files_touched r = {''shared/util.go''} \<Longrightarrow>
   try_read (target_path A) (Stage.name st) = None \<Longrightarrow>
   try_read (target_path B) (Stage.name st) = None \<Longrightarrow>
   A \<noteq> B
   \<and> find_build_set try_read {A, B} [r] [st] False None None =
       Inr [st \<mapsto> {\<lparr>project = B, changed_files = {''shared/util.go''}\<rparr>}]"
proof -
  assume a: "root_path A = ''svcA/''" "dependencies A = None" "stages A (Stage.name st) \<noteq> None"
    and b: "root_path B = ''svcB/''" "dependencies B = Some table"
      "set (table (Stage.name st)) = {''shared/''}" "stages B (Stage.name st) \<noteq> None"
    and h: "files_touched r = {''shared/util.go''}"
    and o: "try_read (target_path A) (Stage.name st) = None"
      "try_read (target_path B) (Stage.name st) = None"
  have ne: "A \<noteq> B" using a(1) b(1) by auto
  have relA: "to_relevant_changes try_read A (Stage.name st) [r] = {''shared/util.go''}"
    using h o(1) by (simp add: to_relevant_changes_def output_invalidated_def)
  have relB: "to_relevant_changes try_read B (Stage.name st) [r] = {''shared/util.go''}"
    using h o(2) by (simp add: to_relevant_changes_def output_invalidated_def)
  have invA: "\<not> is_invalidated A (Stage.name st) ''shared/util.go''"
    using a(1,2) by (simp add: is_invalidated_def startswith_def)
  have "\<exists>d\<in>set (table (Stage.name st)). prefix d ''shared/util.go''"
    unfolding b(3) by simp
  then have invB: "is_invalidated B (Stage.name st) ''shared/util.go''"
    using b(2) by (simp add: is_invalidated_def find_startswith_iff)
  have pA: "to_project_execution try_read A (Stage.name st) [r] = None"
    using a(3) invA by (auto simp: to_project_execution_def relA)
  have pB: "to_project_execution try_read B (Stage.name st) [r] =
      Some \<lparr>project = B, changed_files = {''shared/util.go''}\<rparr>"
    using b(4) invB by (auto simp: to_project_execution_def relB)
  have "find_build_set try_read {A, B} [r] [st] False None None =
      Inr [st \<mapsto> {\<lparr>project = B, changed_files = {''shared/util.go''}\<rparr>}]"
    by (simp add: find_build_set_def truthy_def build_project_executions_def pA pB)
  with ne show ?thesis by simp
qed

theorem dependency_propagation_witness:
  "root_path project_A = ''svcA/'' \<and> dependencies project_A = None
   \<and> stages project_A (Stage.name BUILD) \<noteq> None
   \<and> root_path project_B = ''svcB/'' \<and> dependencies project_B = Some deps_B
   \<and> set (deps_B (Stage.name BUILD)) = {''shared/''}
   \<and> stages project_B (Stage.name BUILD) \<noteq> None
   \<and> files_touched r1 = {''shared/util.go''}
   \<and> no_outputs (target_path project_A) (Stage.name BUILD) = None
   \<and> no_outputs (target_path project_B) (Stage.name BUILD) = None
   \<and> find_build_set no_outputs {project_A, project_B} [r1] [BUILD] False None None =
       Inr [BUILD \<mapsto> {\<lparr>project = project_B, changed_files = {''shared/util.go''}\<rparr>}]"
proof -
  have 1: "root_path project_A = ''svcA/''" "dependencies project_A = None"
    "stages project_A (Stage.name BUILD) \<noteq> None"
    by (simp_all add: project_A_def BUILD_def build_only_def)
  have 2: "root_path project_B = ''svcB/''" "dependencies project_B = Some deps_B"
    "set (deps_B (Stage.name BUILD)) = {''shared/''}"
    "stages project_B (Stage.name BUILD) \<noteq> None"
    by (simp_all add: project_B_def BUILD_def build_only_def deps_B_def)
  have 3: "files_touched r1 = {''shared/util.go''}" by (simp add: r1_def)
  have 4: "no_outputs (target_path project_A) (Stage.name BUILD) = None"
    "no_outputs (target_path project_B) (Stage.name BUILD) = None"
    by (simp_all add: no_outputs_def)
  from dependency_propagation [where A = project_A and B = project_B and st = BUILD
      and table = deps_B and r = r1 and try_read = no_outputs, OF 1 2 3 4] 1 2 3 4
  show ?thesis by simp
qed

end
